theory Spec2Isabelle
  imports Main "HOL-Library.Multiset"
begin

section \<open>Errors, rows and the quotes table\<close>

text \<open>
  The package \<^verbatim>\<open>quotes\<close> (file \<^verbatim>\<open>quotes.go\<close>) is a data-access object over one SQLite
  table. Its Go code calls \<^verbatim>\<open>database/sql\<close>; the statements it sends are the string
  constants \<^verbatim>\<open>sqlCreateTable\<close> ... \<^verbatim>\<open>sqlGetAll\<close>. The embedding has three layers:
  \<^item> the table and the meaning of each SQL constant, as a function on the table;
  \<^item> the handle \<^verbatim>\<open>*sql.DB\<close>, which may be closed and whose calls may fail;
  \<^item> the methods of \<^verbatim>\<open>QuoteDB\<close>, translated line by line.

  What the environment decides in a call is a parameter of the call: the error a driver
  call reports, if any (\<open>error option\<close>, \<open>None\<close> for a call that goes through), the clock, and
  the random choices of the engine. Every call that returns an error in
  \<^verbatim>\<open>database/sql\<close> has such a parameter, so that every error branch of the source is a
  branch of the model: \<^verbatim>\<open>Exec\<close>, \<^verbatim>\<open>Query\<close>, \<^verbatim>\<open>QueryRow(...).Scan\<close>,
  \<^verbatim>\<open>LastInsertId\<close>, \<^verbatim>\<open>RowsAffected\<close>, \<^verbatim>\<open>rows.Scan\<close>, \<^verbatim>\<open>rows.Err\<close>, \<^verbatim>\<open>sql.Open\<close>
  and \<^verbatim>\<open>Close\<close>. A statement that fails leaves the table as it was; a result method
  that fails does so after its statement has run. The driver that the package imports
  and opens (go-sqlite3, lines 8 and 45 of \<^verbatim>\<open>quotes.go\<close>) returns a nil error from
  \<^verbatim>\<open>LastInsertId\<close> and from \<^verbatim>\<open>RowsAffected\<close>: in an execution of the program the
  parameters of these two are \<open>None\<close>, while a statement or a query can fail (a full
  disk, a locked or unreadable file). Go's \<^verbatim>\<open>int\<close> and \<^verbatim>\<open>int64\<close> are modelled by \<open>int\<close> (64-bit
  platform; the counter would need \<open>2^63\<close> rows to wrap). The embedded \<^verbatim>\<open>sync.RWMutex\<close>
  has no effect on a sequential run and is left out.
\<close>

datatype error =
    ErrNoRows           \<comment> \<open>\<^verbatim>\<open>sql.ErrNoRows\<close>: \<^verbatim>\<open>QueryRow(...).Scan\<close> found no row\<close>
  | ErrDBClosed         \<comment> \<open>\<^verbatim>\<open>sql: database is closed\<close>\<close>
  | ErrDriver string    \<comment> \<open>any error reported by the driver or the engine\<close>

text \<open>One row of \<^verbatim>\<open>quotes (id INTEGER PRIMARY KEY, date INTEGER NOT NULL,
  author TEXT NOT NULL, quote TEXT NOT NULL)\<close>.\<close>

record row =
  rid :: int
  rdate :: int
  rauthor :: string
  rquote :: string

type_synonym table = "row list"

definition ids :: "table \<Rightarrow> int list" where
  "ids t = map rid t"

text \<open>\<^verbatim>\<open>id INTEGER PRIMARY KEY\<close>: the engine keeps the ids of a table distinct.\<close>

definition primary_key :: "table \<Rightarrow> bool" where
  "primary_key t = distinct (ids t)"

subsection \<open>The SQL statements\<close>

definition max_rowid :: int where
  "max_rowid = 9223372036854775807"

text \<open>
  An insert that names no id gets 1 in an empty table, otherwise the largest id in use
  plus one; when the largest id is already the largest 64-bit integer the engine tries
  random positive candidates \<open>rnd\<close> and gives up when none of them is free.
\<close>

definition new_rowid :: "table \<Rightarrow> int list \<Rightarrow> int option" where
  "new_rowid t rnd =
     (if t = [] then Some 1
      else if Max (set (ids t)) < max_rowid then Some (Max (set (ids t)) + 1)
      else find (\<lambda>c. 0 < c \<and> c \<le> max_rowid \<and> c \<notin> set (ids t)) rnd)"

text \<open>\<^verbatim>\<open>CREATE TABLE IF NOT EXISTS quotes (...)\<close>; \<open>None\<close> is a file without the table.\<close>

definition sqlCreateTable :: "table option \<Rightarrow> table option" where
  "sqlCreateTable file = (case file of None \<Rightarrow> Some [] | Some t \<Rightarrow> Some t)"

text \<open>\<^verbatim>\<open>CREATE INDEX IF NOT EXISTS quotesdate ON quotes (date)\<close>: no row changes.\<close>

definition sqlDateIndex :: "table option \<Rightarrow> error + table option" where
  "sqlDateIndex file =
     (case file of None \<Rightarrow> Inl (ErrDriver ''no such table: main.quotes'')
      | Some t \<Rightarrow> Inr (Some t))"

text \<open>\<^verbatim>\<open>SELECT COUNT(*) FROM quotes\<close>\<close>

definition sqlGetCount :: "table \<Rightarrow> int" where
  "sqlGetCount t = int (length t)"

text \<open>
  \<^verbatim>\<open>INSERT INTO quotes (date, author, quote) VALUES(?, ?, ?)\<close>. A bound parameter is
  \<open>None\<close> for SQL NULL; the three columns are NOT NULL. The result is the new table and
  the id of the new row.
\<close>

definition sqlAdd ::
  "table \<Rightarrow> int option \<Rightarrow> string option \<Rightarrow> string option \<Rightarrow> int list \<Rightarrow> error + (table \<times> int)" where
  "sqlAdd t date author quote rnd =
     (case date of None \<Rightarrow> Inl (ErrDriver ''NOT NULL constraint failed: quotes.date'')
      | Some d \<Rightarrow>
     (case author of None \<Rightarrow> Inl (ErrDriver ''NOT NULL constraint failed: quotes.author'')
      | Some a \<Rightarrow>
     (case quote of None \<Rightarrow> Inl (ErrDriver ''NOT NULL constraint failed: quotes.quote'')
      | Some s \<Rightarrow>
     (case new_rowid t rnd of None \<Rightarrow> Inl (ErrDriver ''database or disk is full'')
      | Some i \<Rightarrow> Inr (t @ [\<lparr>rid = i, rdate = d, rauthor = a, rquote = s\<rparr>], i)))))"

text \<open>\<^verbatim>\<open>DELETE FROM quotes WHERE id = ?\<close>: the new table and the number of rows deleted.\<close>

definition sqlDel :: "table \<Rightarrow> int \<Rightarrow> table \<times> int" where
  "sqlDel t i = (filter (\<lambda>r. rid r \<noteq> i) t, int (length (filter (\<lambda>r. rid r = i) t)))"

text \<open>\<^verbatim>\<open>UPDATE quotes SET quote = ? WHERE id = ?\<close>: the new table and the number of rows
  the update ran on (a row counts also when its text was already the new one).\<close>

definition sqlEdit :: "table \<Rightarrow> string option \<Rightarrow> int \<Rightarrow> error + (table \<times> int)" where
  "sqlEdit t quote i =
     (case quote of
        None \<Rightarrow> (if i \<in> set (ids t) then Inl (ErrDriver ''NOT NULL constraint failed: quotes.quote'')
                 else Inr (t, 0))
      | Some s \<Rightarrow> Inr (map (\<lambda>r. if rid r = i then r\<lparr>rquote := s\<rparr> else r) t,
                       int (length (filter (\<lambda>r. rid r = i) t))))"

text \<open>\<^verbatim>\<open>SELECT id, quote FROM quotes ORDER BY RANDOM() LIMIT 1\<close>; \<open>pick\<close> is the engine's
  random choice.\<close>

definition sqlGet :: "table \<Rightarrow> nat \<Rightarrow> (int \<times> string) list" where
  "sqlGet t pick =
     (if t = [] then [] else [(rid (t ! (pick mod length t)), rquote (t ! (pick mod length t)))])"

text \<open>\<^verbatim>\<open>SELECT quote FROM quotes WHERE id = ?\<close>\<close>

definition sqlGetId :: "table \<Rightarrow> int \<Rightarrow> string list" where
  "sqlGetId t i = map rquote (filter (\<lambda>r. rid r = i) t)"

text \<open>\<^verbatim>\<open>SELECT date, author FROM quotes WHERE id = ?\<close>\<close>

definition sqlGetDetail :: "table \<Rightarrow> int \<Rightarrow> (int \<times> string) list" where
  "sqlGetDetail t i = map (\<lambda>r. (rdate r, rauthor r)) (filter (\<lambda>r. rid r = i) t)"

text \<open>\<^verbatim>\<open>SELECT id, date, author, quote FROM quotes order by id desc\<close>\<close>

definition sqlGetAll :: "table \<Rightarrow> row list" where
  "sqlGetAll t = rev (sort_key rid t)"

section \<open>The handle\<close>

text \<open>\<^verbatim>\<open>*sql.DB\<close>: whether it was closed, and the table of the file it is connected to.\<close>

record sqlDB =
  isClosed :: bool
  quotes_table :: "table option"

text \<open>\<^verbatim>\<open>sql.Open("sqlite3", filename)\<close> on a file whose table is \<open>file\<close>.\<close>

definition sql_Open :: "table option \<Rightarrow> error option \<Rightarrow> error + sqlDB" where
  "sql_Open file f =
     (case f of Some e \<Rightarrow> Inl e | None \<Rightarrow> Inr \<lparr>isClosed = False, quotes_table = file\<rparr>)"

text \<open>What a statement on the handle meets before it runs: a closed handle, the failure
  \<open>f\<close> of the driver, or the file.\<close>

definition conn :: "sqlDB \<Rightarrow> error option \<Rightarrow> error + table option" where
  "conn h f =
     (if isClosed h then Inl ErrDBClosed
      else case f of Some e \<Rightarrow> Inl e | None \<Rightarrow> Inr (quotes_table h))"

text \<open>The same for a statement that reads or writes the rows of \<^verbatim>\<open>quotes\<close>.\<close>

definition conn_table :: "sqlDB \<Rightarrow> error option \<Rightarrow> error + table" where
  "conn_table h f =
     (case conn h f of Inl e \<Rightarrow> Inl e
      | Inr None \<Rightarrow> Inl (ErrDriver ''no such table: quotes'')
      | Inr (Some t) \<Rightarrow> Inr t)"

text \<open>\<^verbatim>\<open>res.LastInsertId()\<close> and \<^verbatim>\<open>res.RowsAffected()\<close>: the number the statement left
  in its result, or the error \<open>f\<close> of the driver.\<close>

definition result_value :: "int \<Rightarrow> error option \<Rightarrow> error + int" where
  "result_value v f = (case f of Some e \<Rightarrow> Inl e | None \<Rightarrow> Inr v)"

text \<open>\<^verbatim>\<open>QueryRow(...).Scan(...)\<close>: the first row, \<^verbatim>\<open>sql.ErrNoRows\<close> when there is none.\<close>

definition scan_first :: "'a list \<Rightarrow> error + 'a" where
  "scan_first rows = (case rows of [] \<Rightarrow> Inl ErrNoRows | r # _ \<Rightarrow> Inr r)"

section \<open>QuoteDB and its methods\<close>

record QuoteDB =
  db :: "sqlDB option"      \<comment> \<open>\<open>None\<close> is the nil pointer\<close>
  nQuotes :: int

text \<open>\<^verbatim>\<open>Quote\<close>; \<open>Date\<close> holds the Unix seconds of the \<^verbatim>\<open>time.Time\<close>.\<close>

record Quote =
  ID :: int
  Date :: int
  Author :: string
  Quote :: string

text \<open>A method either returns or panics (a nil \<^verbatim>\<open>q.db\<close> is dereferenced).\<close>

datatype 'a outcome = Panic | Return 'a

definition NQuotes :: "QuoteDB \<Rightarrow> int" where
  "NQuotes q = nQuotes q"

definition createTable ::
  "QuoteDB \<Rightarrow> error option \<Rightarrow> error option \<Rightarrow> (QuoteDB \<times> error option) outcome" where
  "createTable q f_table f_index =
     (case db q of None \<Rightarrow> Panic
      | Some h \<Rightarrow>
          (case conn h f_table of Inl e \<Rightarrow> Return (q, Some e)
           | Inr file \<Rightarrow>
               (let h1 = h\<lparr>quotes_table := sqlCreateTable file\<rparr>; q1 = q\<lparr>db := Some h1\<rparr> in
                case conn h1 f_index of Inl e \<Rightarrow> Return (q1, Some e)
                | Inr file1 \<Rightarrow>
                    (case sqlDateIndex file1 of Inl e \<Rightarrow> Return (q1, Some e)
                     | Inr file2 \<Rightarrow> Return (q1\<lparr>db := Some (h1\<lparr>quotes_table := file2\<rparr>)\<rparr>, None)))))"

definition getCount :: "QuoteDB \<Rightarrow> error option \<Rightarrow> (QuoteDB \<times> error option) outcome" where
  "getCount q f =
     (case db q of None \<Rightarrow> Panic
      | Some h \<Rightarrow>
          (case conn_table h f of Inl e \<Rightarrow> Return (q, Some e)
           | Inr t \<Rightarrow>
               (case scan_first [sqlGetCount t] of Inl e \<Rightarrow> Return (q, Some e)
                | Inr n \<Rightarrow> Return (q\<lparr>nQuotes := n\<rparr>, None))))"

text \<open>\<^verbatim>\<open>Close\<close> returns, beside the store, the handle object as the call leaves it.\<close>

definition Close :: "QuoteDB \<Rightarrow> error option \<Rightarrow> (QuoteDB \<times> sqlDB \<times> error option) outcome" where
  "Close q f =
     (case db q of None \<Rightarrow> Panic
      | Some h \<Rightarrow> Return (q\<lparr>db := None\<rparr>, h\<lparr>isClosed := True\<rparr>, f))"

text \<open>
  \<^verbatim>\<open>OpenDB\<close> returns the store, the error, and (third) the handle object that
  \<^verbatim>\<open>sql.Open\<close> made, as \<^verbatim>\<open>OpenDB\<close> leaves it; \<open>None\<close> when \<^verbatim>\<open>sql.Open\<close> made none.
\<close>

definition OpenDB ::
  "table option \<Rightarrow> error option \<Rightarrow> error option \<Rightarrow> error option \<Rightarrow> error option \<Rightarrow> error option
    \<Rightarrow> (QuoteDB option \<times> error option \<times> sqlDB option) outcome" where
  "OpenDB file f_open f_table f_index f_count f_close =
     (case sql_Open file f_open of Inl e \<Rightarrow> Return (None, Some e, None)
      | Inr h \<Rightarrow>
          (case createTable \<lparr>db = Some h, nQuotes = 0\<rparr> f_table f_index of Panic \<Rightarrow> Panic
           | Return (qdb, Some e) \<Rightarrow>
               (case Close qdb f_close of Panic \<Rightarrow> Panic
                | Return (_, h', _) \<Rightarrow> Return (None, Some e, Some h'))
           | Return (qdb, None) \<Rightarrow>
               (case getCount qdb f_count of Panic \<Rightarrow> Panic
                | Return (qdb', Some e) \<Rightarrow>
                    (case Close qdb' f_close of Panic \<Rightarrow> Panic
                     | Return (_, h', _) \<Rightarrow> Return (None, Some e, Some h'))
                | Return (qdb', None) \<Rightarrow> Return (Some qdb', None, db qdb'))))"

text \<open>\<^verbatim>\<open>AddQuote\<close>; \<open>now\<close> is \<^verbatim>\<open>time.Now().Unix()\<close>, \<open>f_exec\<close> and \<open>f_id\<close> the failures of
  \<^verbatim>\<open>Exec\<close> and \<^verbatim>\<open>LastInsertId\<close>.\<close>

definition AddQuote ::
  "QuoteDB \<Rightarrow> int \<Rightarrow> string \<Rightarrow> string \<Rightarrow> error option \<Rightarrow> int list \<Rightarrow> error option
    \<Rightarrow> (QuoteDB \<times> int \<times> error option) outcome" where
  "AddQuote q now author quote f_exec rnd f_id =
     (case db q of None \<Rightarrow> Panic
      | Some h \<Rightarrow>
          (case conn_table h f_exec of Inl e \<Rightarrow> Return (q, 0, Some e)
           | Inr t \<Rightarrow>
               (case sqlAdd t (Some now) (Some author) (Some quote) rnd of
                  Inl e \<Rightarrow> Return (q, 0, Some e)
                | Inr (t', i) \<Rightarrow>
                    (let q1 = q\<lparr>db := Some (h\<lparr>quotes_table := Some t'\<rparr>)\<rparr> in
                     case result_value i f_id of
                       Inl e \<Rightarrow> Return (q1\<lparr>nQuotes := nQuotes q1 + 1\<rparr>, 0, Some e)
                     | Inr i' \<Rightarrow> Return (q1\<lparr>nQuotes := nQuotes q1 + 1\<rparr>, i', None)))))"

definition RandomQuote ::
  "QuoteDB \<Rightarrow> nat \<Rightarrow> error option \<Rightarrow> (int \<times> string \<times> error option) outcome" where
  "RandomQuote q pick f =
     (case db q of None \<Rightarrow> Panic
      | Some h \<Rightarrow>
          (case conn_table h f of Inl e \<Rightarrow> Return (0, [], Some e)
           | Inr t \<Rightarrow>
               (case scan_first (sqlGet t pick) of Inl e \<Rightarrow> Return (0, [], Some e)
                | Inr (i, s) \<Rightarrow> Return (i, s, None))))"

definition GetQuote :: "QuoteDB \<Rightarrow> int \<Rightarrow> error option \<Rightarrow> (string \<times> error option) outcome" where
  "GetQuote q i f =
     (case db q of None \<Rightarrow> Panic
      | Some h \<Rightarrow>
          (case conn_table h f of Inl e \<Rightarrow> Return ([], Some e)
           | Inr t \<Rightarrow>
               (case scan_first (sqlGetId t i) of Inl e \<Rightarrow> Return ([], Some e)
                | Inr s \<Rightarrow> Return (s, None))))"

definition GetDetails ::
  "QuoteDB \<Rightarrow> int \<Rightarrow> error option \<Rightarrow> (int \<times> string \<times> error option) outcome" where
  "GetDetails q i f =
     (case db q of None \<Rightarrow> Panic
      | Some h \<Rightarrow>
          (case conn_table h f of Inl e \<Rightarrow> Return (0, [], Some e)
           | Inr t \<Rightarrow>
               (case scan_first (sqlGetDetail t i) of Inl e \<Rightarrow> Return (0, [], Some e)
                | Inr (d, a) \<Rightarrow> Return (d, a, None))))"

text \<open>\<^verbatim>\<open>DelQuote\<close>; \<open>f_exec\<close> and \<open>f_rows\<close> are the failures of \<^verbatim>\<open>Exec\<close> and
  \<^verbatim>\<open>RowsAffected\<close>.\<close>

definition DelQuote ::
  "QuoteDB \<Rightarrow> int \<Rightarrow> error option \<Rightarrow> error option \<Rightarrow> (QuoteDB \<times> bool \<times> error option) outcome" where
  "DelQuote q i f_exec f_rows =
     (case db q of None \<Rightarrow> Panic
      | Some h \<Rightarrow>
          (case conn_table h f_exec of Inl e \<Rightarrow> Return (q, False, Some e)
           | Inr t \<Rightarrow>
               (let q1 = q\<lparr>db := Some (h\<lparr>quotes_table := Some (fst (sqlDel t i))\<rparr>)\<rparr> in
                case result_value (snd (sqlDel t i)) f_rows of
                  Inl e \<Rightarrow> Return (q1, False, Some e)
                | Inr r \<Rightarrow>
                    (if r = 1 then Return (q1\<lparr>nQuotes := nQuotes q1 - 1\<rparr>, True, None)
                     else Return (q1, False, None)))))"

definition EditQuote ::
  "QuoteDB \<Rightarrow> int \<Rightarrow> string \<Rightarrow> error option \<Rightarrow> error option
    \<Rightarrow> (QuoteDB \<times> bool \<times> error option) outcome" where
  "EditQuote q i quote f_exec f_rows =
     (case db q of None \<Rightarrow> Panic
      | Some h \<Rightarrow>
          (case conn_table h f_exec of Inl e \<Rightarrow> Return (q, False, Some e)
           | Inr t \<Rightarrow>
               (case sqlEdit t (Some quote) i of Inl e \<Rightarrow> Return (q, False, Some e)
                | Inr (t', n) \<Rightarrow>
                    (let q1 = q\<lparr>db := Some (h\<lparr>quotes_table := Some t'\<rparr>)\<rparr> in
                     case result_value n f_rows of
                       Inl e \<Rightarrow> Return (q1, False, Some e)
                     | Inr r \<Rightarrow> Return (q1, r = 1, None)))))"

text \<open>
  \<^verbatim>\<open>GetAll\<close>. \<^verbatim>\<open>Query\<close> fails with \<open>f_query\<close>; \<open>f_next = Some (k, e)\<close> is a cursor that
  breaks off with \<open>e\<close> after \<open>k\<close> rows (\<^verbatim>\<open>rows.Next()\<close> is false and \<^verbatim>\<open>rows.Err()\<close> is \<open>e\<close>);
  \<open>f_scan = Some (k, e)\<close> makes \<^verbatim>\<open>rows.Scan\<close> fail with \<open>e\<close> on row number \<open>k\<close>. The loop
  is \<open>scan_rows\<close>: the rows still to come, the number of the next row, the slice so far.
\<close>

definition to_Quote :: "row \<Rightarrow> Quote" where
  "to_Quote r = \<lparr>ID = rid r, Date = rdate r, Author = rauthor r, Quote = rquote r\<rparr>"

fun scan_rows :: "row list \<Rightarrow> nat \<Rightarrow> (nat \<times> error) option \<Rightarrow> Quote list \<Rightarrow> error + Quote list" where
  "scan_rows [] k f_scan quotes = Inr quotes"
| "scan_rows (r # rs) k f_scan quotes =
     (case f_scan of
        None \<Rightarrow> scan_rows rs (Suc k) f_scan (quotes @ [to_Quote r])
      | Some (j, e) \<Rightarrow>
          (if j = k then Inl e else scan_rows rs (Suc k) f_scan (quotes @ [to_Quote r])))"

definition GetAll ::
  "QuoteDB \<Rightarrow> error option \<Rightarrow> (nat \<times> error) option \<Rightarrow> (nat \<times> error) option
    \<Rightarrow> (Quote list option \<times> error option) outcome" where
  "GetAll qdb f_query f_next f_scan =
     (case db qdb of None \<Rightarrow> Panic
      | Some h \<Rightarrow>
          (case conn_table h f_query of Inl e \<Rightarrow> Return (None, Some e)
           | Inr t \<Rightarrow>
               (let rows = (case f_next of None \<Rightarrow> sqlGetAll t
                            | Some (k, e) \<Rightarrow> take k (sqlGetAll t))
                in case scan_rows rows 0 f_scan [] of Inl e \<Rightarrow> Return (None, Some e)
                   | Inr quotes \<Rightarrow>
                       (case f_next of Some (k, e) \<Rightarrow> Return (None, Some e)
                        | None \<Rightarrow> Return (Some quotes, None)))))"

section \<open>Store states and runs\<close>

text \<open>The table an open store works on: \<open>None\<close> for a nil or closed handle and for a
  file without the table.\<close>

definition table_of :: "QuoteDB \<Rightarrow> table option" where
  "table_of q =
     (case db q of None \<Rightarrow> None
      | Some h \<Rightarrow> if isClosed h then None else quotes_table h)"

text \<open>An open store whose ids are distinct and whose cached count is the number of rows.\<close>

definition consistent :: "QuoteDB \<Rightarrow> bool" where
  "consistent q =
     (case table_of q of None \<Rightarrow> False
      | Some t \<Rightarrow> primary_key t \<and> nQuotes q = sqlGetCount t)"

text \<open>A call of a method of the store, with what the environment decides in it.\<close>

datatype call =
    CallAdd int string string "error option" "int list" "error option"
  | CallRandom nat "error option"
  | CallGet int "error option"
  | CallDetails int "error option"
  | CallDel int "error option" "error option"
  | CallEdit int string "error option" "error option"
  | CallGetAll "error option" "(nat \<times> error) option" "(nat \<times> error) option"
  | CallNQuotes
  | CallClose "error option"

text \<open>
  A run keeps, beside the store, the table of the file that the store was opened on:
  \<^verbatim>\<open>Close\<close> gives up the handle, not the file. After a call on an open store the file
  holds the table of the store's handle; \<^verbatim>\<open>Close\<close> leaves the table of the handle it
  closed.
\<close>

definition file_after :: "QuoteDB \<Rightarrow> table option \<Rightarrow> table option" where
  "file_after q file = (case table_of q of Some t \<Rightarrow> Some t | None \<Rightarrow> file)"

text \<open>The store and the file after a call; the methods that only read leave both as
  they are.\<close>

fun step :: "QuoteDB \<times> table option \<Rightarrow> call \<Rightarrow> (QuoteDB \<times> table option) outcome" where
  "step (q, file) (CallAdd now author quote f_exec rnd f_id) =
     (case AddQuote q now author quote f_exec rnd f_id of Panic \<Rightarrow> Panic
      | Return (q', _, _) \<Rightarrow> Return (q', file_after q' file))"
| "step (q, file) (CallRandom pick f) =
     (case RandomQuote q pick f of Panic \<Rightarrow> Panic | Return _ \<Rightarrow> Return (q, file))"
| "step (q, file) (CallGet i f) =
     (case GetQuote q i f of Panic \<Rightarrow> Panic | Return _ \<Rightarrow> Return (q, file))"
| "step (q, file) (CallDetails i f) =
     (case GetDetails q i f of Panic \<Rightarrow> Panic | Return _ \<Rightarrow> Return (q, file))"
| "step (q, file) (CallDel i f_exec f_rows) =
     (case DelQuote q i f_exec f_rows of Panic \<Rightarrow> Panic
      | Return (q', _, _) \<Rightarrow> Return (q', file_after q' file))"
| "step (q, file) (CallEdit i quote f_exec f_rows) =
     (case EditQuote q i quote f_exec f_rows of Panic \<Rightarrow> Panic
      | Return (q', _, _) \<Rightarrow> Return (q', file_after q' file))"
| "step (q, file) (CallGetAll f_query f_next f_scan) =
     (case GetAll q f_query f_next f_scan of Panic \<Rightarrow> Panic | Return _ \<Rightarrow> Return (q, file))"
| "step (q, file) CallNQuotes = Return (q, file)"
| "step (q, file) (CallClose f) =
     (case Close q f of Panic \<Rightarrow> Panic | Return (q', h, _) \<Rightarrow> Return (q', quotes_table h))"

fun run :: "QuoteDB \<times> table option \<Rightarrow> call list \<Rightarrow> (QuoteDB \<times> table option) outcome" where
  "run s [] = Return s"
| "run s (c # cs) = (case step s c of Panic \<Rightarrow> Panic | Return s' \<Rightarrow> run s' cs)"

fun closes :: "call \<Rightarrow> bool" where
  "closes (CallClose f) = True"
| "closes _ = False"

text \<open>
  A call of \<^verbatim>\<open>DelQuote\<close> in which \<^verbatim>\<open>RowsAffected\<close> fails after a \<^verbatim>\<open>DELETE\<close> that the
  driver accepted and that deleted a row. (With go-sqlite3, whose \<^verbatim>\<open>RowsAffected\<close>
  returns a nil error, there is no such call.)
\<close>

fun lost_delete :: "QuoteDB \<Rightarrow> call \<Rightarrow> bool" where
  "lost_delete q (CallDel i f_exec f_rows) =
     (f_exec = None \<and> f_rows \<noteq> None
      \<and> (case table_of q of None \<Rightarrow> False | Some t \<Rightarrow> i \<in> set (ids t)))"
| "lost_delete q _ = False"

text \<open>The change of the count that a call may make.\<close>

fun count_change :: "call \<Rightarrow> int set" where
  "count_change (CallAdd now author quote f_exec rnd f_id) = {0, 1}"
| "count_change (CallDel i f_exec f_rows) = {0, - 1}"
| "count_change _ = {0}"

text \<open>The states of a run that started on a consistent store: the ids of the file are
  distinct, the cached count is the number of its rows, and the store is closed or works
  on this table.\<close>

definition in_step :: "QuoteDB \<times> table option \<Rightarrow> bool" where
  "in_step s =
     (case snd s of None \<Rightarrow> False
      | Some t \<Rightarrow> primary_key t \<and> nQuotes (fst s) = sqlGetCount t
                  \<and> (db (fst s) = None \<or> table_of (fst s) = Some t))"

text \<open>What an edit of the quote with id \<open>i\<close> may change: row by row, the id, the date
  and the author stay, and a row with another id stays as a whole.\<close>

definition same_but_quote :: "int \<Rightarrow> row \<Rightarrow> row \<Rightarrow> bool" where
  "same_but_quote i r r' =
     (rid r' = rid r \<and> rdate r' = rdate r \<and> rauthor r' = rauthor r \<and> (rid r \<noteq> i \<longrightarrow> r' = r))"

definition only_quote_edited :: "int \<Rightarrow> table \<Rightarrow> table \<Rightarrow> bool" where
  "only_quote_edited i t t' = list_all2 (same_but_quote i) t t'"

subsection \<open>Sample stores\<close>

text \<open>The store that \<^verbatim>\<open>OpenDB\<close> returns on a new file, and one with two quotes.\<close>

definition new_store :: QuoteDB where
  "new_store = \<lparr>db = Some \<lparr>isClosed = False, quotes_table = Some []\<rparr>, nQuotes = 0\<rparr>"

definition alice :: row where
  "alice = \<lparr>rid = 1, rdate = 100, rauthor = ''Alice'', rquote = ''Hi''\<rparr>"

definition bob :: row where
  "bob = \<lparr>rid = 2, rdate = 200, rauthor = ''Bob'', rquote = ''Yo''\<rparr>"

definition two_quotes :: QuoteDB where
  "two_quotes = \<lparr>db = Some \<lparr>isClosed = False, quotes_table = Some [alice, bob]\<rparr>, nQuotes = 2\<rparr>"

section \<open>Properties\<close>

subsection \<open>The table and the statements\<close>

lemma table_of_open:
  assumes "table_of q = Some t"
  obtains h where "db q = Some h" "\<not> isClosed h" "quotes_table h = Some t"
  using assms by (auto simp: table_of_def split: option.splits if_splits)

lemma conn_table_open:
  "\<not> isClosed h \<Longrightarrow> quotes_table h = Some t \<Longrightarrow>
   conn_table h f = (case f of None \<Rightarrow> Inr t | Some e \<Rightarrow> Inl e)"
  by (simp add: conn_table_def conn_def split: option.splits)

lemma new_rowid_fresh: "new_rowid t rnd = Some i \<Longrightarrow> i \<notin> set (ids t)"
proof -
  assume a: "new_rowid t rnd = Some i"
  show ?thesis
  proof (cases "t = []")
    case True
    then show ?thesis by (simp add: ids_def)
  next
    case False
    note ne = this
    show ?thesis
    proof (cases "Max (set (ids t)) < max_rowid")
      case True
      with ne a have i: "i = Max (set (ids t)) + 1" by (simp add: new_rowid_def)
      show ?thesis
      proof
        assume "i \<in> set (ids t)"
        then have "i \<le> Max (set (ids t))" by simp
        with i show False by simp
      qed
    next
      case False
      with ne a have "find (\<lambda>c. 0 < c \<and> c \<le> max_rowid \<and> c \<notin> set (ids t)) rnd = Some i"
        by (simp add: new_rowid_def)
      then show ?thesis by (auto simp: find_Some_iff)
    qed
  qed
qed

lemma no_row_of_id: "i \<notin> set (ids t) \<Longrightarrow> filter (\<lambda>r. rid r = i) t = []"
  by (induction t) (auto simp: ids_def)

lemma keep_rows_of_other_id: "i \<notin> set (ids t) \<Longrightarrow> filter (\<lambda>r. rid r \<noteq> i) t = t"
  by (induction t) (auto simp: ids_def)

lemma one_row_of_id:
  "primary_key t \<Longrightarrow> i \<in> set (ids t) \<Longrightarrow> length (filter (\<lambda>r. rid r = i) t) = 1"
  by (induction t) (auto simp: ids_def primary_key_def no_row_of_id [unfolded ids_def])

lemma rows_of_id_count:
  "primary_key t \<Longrightarrow> int (length (filter (\<lambda>r. rid r = i) t)) = (if i \<in> set (ids t) then 1 else 0)"
  by (simp add: one_row_of_id no_row_of_id)

lemma length_sqlDel:
  "int (length (fst (sqlDel t i))) = int (length t) - snd (sqlDel t i)"
  using sum_length_filter_compl [of "\<lambda>r. rid r = i" t]
  by (simp add: sqlDel_def)

lemma ids_sqlDel: "ids (fst (sqlDel t i)) = filter (\<lambda>j. j \<noteq> i) (ids t)"
  by (simp add: sqlDel_def ids_def filter_map comp_def)

lemma primary_key_sqlDel: "primary_key t \<Longrightarrow> primary_key (fst (sqlDel t i))"
  by (simp add: primary_key_def ids_sqlDel)

lemma ids_edit: "ids (map (\<lambda>r. if rid r = i then r\<lparr>rquote := s\<rparr> else r) t) = ids t"
  by (induction t) (auto simp: ids_def)

lemma sqlAdd_some:
  "sqlAdd t (Some d) (Some a) (Some s) rnd =
     (case new_rowid t rnd of None \<Rightarrow> Inl (ErrDriver ''database or disk is full'')
      | Some i \<Rightarrow> Inr (t @ [\<lparr>rid = i, rdate = d, rauthor = a, rquote = s\<rparr>], i))"
  by (simp add: sqlAdd_def)

lemma sqlAdd_result:
  assumes "sqlAdd t (Some d) (Some a) (Some s) rnd = Inr (t', i)"
  shows "t' = t @ [\<lparr>rid = i, rdate = d, rauthor = a, rquote = s\<rparr>]" "i \<notin> set (ids t)"
  using assms by (auto simp: sqlAdd_some split: option.splits dest: new_rowid_fresh)

lemma primary_key_sqlAdd:
  "primary_key t \<Longrightarrow> sqlAdd t (Some d) (Some a) (Some s) rnd = Inr (t', i) \<Longrightarrow> primary_key t'"
  by (auto simp: sqlAdd_some primary_key_def ids_def split: option.splits
      dest: new_rowid_fresh [unfolded ids_def])

lemma sqlGetId_added:
  "i \<notin> set (ids t) \<Longrightarrow>
   sqlGetId (t @ [\<lparr>rid = i, rdate = d, rauthor = a, rquote = s\<rparr>]) i = [s]"
  by (simp add: sqlGetId_def no_row_of_id)

subsection \<open>AddQuote\<close>

lemma conn_table_Inr:
  "conn_table h f = Inr t \<Longrightarrow> \<not> isClosed h \<and> f = None \<and> quotes_table h = Some t"
  by (auto simp: conn_table_def conn_def split: if_splits option.splits sum.splits)

lemma AddQuote_success:
  assumes "AddQuote q now a s fe rnd fi = Return (q', i, None)"
  obtains h t where "db q = Some h" "\<not> isClosed h" "quotes_table h = Some t" "fe = None" "fi = None"
    "new_rowid t rnd = Some i"
    "q' = q\<lparr>db := Some (h\<lparr>quotes_table := Some (t @ [\<lparr>rid = i, rdate = now, rauthor = a, rquote = s\<rparr>])\<rparr>),
            nQuotes := nQuotes q + 1\<rparr>"
  using assms
  by (auto simp: AddQuote_def sqlAdd_some result_value_def Let_def
      split: option.splits sum.splits dest!: conn_table_Inr)

text \<open>
  Claim C3. Whenever \<^verbatim>\<open>AddQuote(a, s)\<close> returns an id \<open>i\<close> with a nil error, from any
  store and whatever the environment did in the call, the count that \<^verbatim>\<open>NQuotes\<close>
  returns is exactly one greater than before, and a following \<^verbatim>\<open>GetQuote(i)\<close> (whose
  own query goes through) returns \<open>s\<close> with a nil error.
\<close>

theorem AddQuote_then_GetQuote:
  assumes "AddQuote q now a s fe rnd fi = Return (q', i, None)"
  shows "NQuotes q' = NQuotes q + 1 \<and> GetQuote q' i None = Return (s, None)"
proof -
  from assms obtain h t where h: "\<not> isClosed h" "new_rowid t rnd = Some i"
    and q': "q' = q\<lparr>db := Some (h\<lparr>quotes_table := Some (t @ [\<lparr>rid = i, rdate = now, rauthor = a, rquote = s\<rparr>])\<rparr>),
            nQuotes := nQuotes q + 1\<rparr>"
    by (rule AddQuote_success)
  from h(2) have fresh: "i \<notin> set (ids t)" by (rule new_rowid_fresh)
  have "NQuotes q' = NQuotes q + 1" by (simp add: q' NQuotes_def)
  moreover have "GetQuote q' i None = Return (s, None)"
    using h(1) by (simp add: q' GetQuote_def conn_table_open sqlGetId_added [OF fresh] scan_first_def)
  ultimately show ?thesis by simp
qed

theorem AddQuote_then_GetQuote_witness:
  "AddQuote two_quotes 300 ''Carol'' ''Hey'' None [] None =
     Return (\<lparr>db = Some \<lparr>isClosed = False, quotes_table = Some [alice, bob,
        \<lparr>rid = 3, rdate = 300, rauthor = ''Carol'', rquote = ''Hey''\<rparr>]\<rparr>, nQuotes = 3\<rparr>, 3, None)
   \<and> GetQuote \<lparr>db = Some \<lparr>isClosed = False, quotes_table = Some [alice, bob,
        \<lparr>rid = 3, rdate = 300, rauthor = ''Carol'', rquote = ''Hey''\<rparr>]\<rparr>, nQuotes = 3\<rparr> 3 None
      = Return (''Hey'', None)"
proof -
  have a: "AddQuote two_quotes 300 ''Carol'' ''Hey'' None [] None =
     Return (\<lparr>db = Some \<lparr>isClosed = False, quotes_table = Some [alice, bob,
        \<lparr>rid = 3, rdate = 300, rauthor = ''Carol'', rquote = ''Hey''\<rparr>]\<rparr>, nQuotes = 3\<rparr>, 3, None)"
    by (simp add: AddQuote_def two_quotes_def conn_table_def conn_def sqlAdd_def new_rowid_def
        ids_def alice_def bob_def max_rowid_def result_value_def)
  from AddQuote_then_GetQuote [OF a] a show ?thesis by simp
qed

text \<open>
  Claim C10 says that there are executions in which \<^verbatim>\<open>AddQuote\<close> returns an error
  although the row was inserted. The only way to them is the branch of lines 105 to 107,
  taken when \<^verbatim>\<open>LastInsertId\<close> returns an error, and the \<^verbatim>\<open>LastInsertId\<close> of the driver
  that the package opens returns a nil error. With that, there is no store and no call
  in which \<^verbatim>\<open>AddQuote\<close> returns an error and has changed the store (its table or its
  count) or returns an id other than 0, whatever else the environment does.
\<close>

theorem error_after_insert_counterexample:
  "\<not> (\<exists>q now a s f_exec rnd q' i e.
         AddQuote q now a s f_exec rnd None = Return (q', i, Some e)
         \<and> (q' \<noteq> q \<or> i \<noteq> 0))"
  by (auto simp: AddQuote_def result_value_def Let_def split: option.splits sum.splits)

text \<open>
  Claim C10, amended. What the code has is the branch: on an open store, if the insert
  itself succeeds and \<^verbatim>\<open>LastInsertId\<close> then fails with \<open>e\<close>, \<^verbatim>\<open>AddQuote\<close> returns the
  id 0 together with \<open>e\<close>, the table has the new row (one row more), and the cached count
  is one greater. (An execution takes it only with a driver whose \<^verbatim>\<open>LastInsertId\<close> can
  fail.)
\<close>

theorem AddQuote_error_after_insert:
  assumes "table_of q = Some t"
    and "sqlAdd t (Some now) (Some a) (Some s) rnd = Inr (t', i)"
  shows "\<exists>q'. AddQuote q now a s None rnd (Some e) = Return (q', 0, Some e)
          \<and> table_of q' = Some t' \<and> int (length t') = int (length t) + 1
          \<and> NQuotes q' = NQuotes q + 1"
proof -
  from assms(1) obtain h where h: "db q = Some h" "\<not> isClosed h" "quotes_table h = Some t"
    by (rule table_of_open)
  from assms(2) have t': "t' = t @ [\<lparr>rid = i, rdate = now, rauthor = a, rquote = s\<rparr>]"
    by (rule sqlAdd_result)
  let ?q' = "q\<lparr>db := Some (h\<lparr>quotes_table := Some t'\<rparr>), nQuotes := nQuotes q + 1\<rparr>"
  have "AddQuote q now a s None rnd (Some e) = Return (?q', 0, Some e)"
    using h assms(2) by (simp add: AddQuote_def conn_table_open result_value_def)
  moreover have "table_of ?q' = Some t'" using h by (simp add: table_of_def)
  moreover have "int (length t') = int (length t) + 1" by (simp add: t')
  moreover have "NQuotes ?q' = NQuotes q + 1" by (simp add: NQuotes_def)
  ultimately show ?thesis by blast
qed

lemma two_quotes_table: "table_of two_quotes = Some [alice, bob]"
  by (simp add: table_of_def two_quotes_def)

lemma new_store_table: "table_of new_store = Some []"
  by (simp add: table_of_def new_store_def)

lemma sqlAdd_two_quotes:
  "sqlAdd [alice, bob] (Some d) (Some a) (Some s) [] =
     Inr ([alice, bob, \<lparr>rid = 3, rdate = d, rauthor = a, rquote = s\<rparr>], 3)"
  by (simp add: sqlAdd_def new_rowid_def ids_def alice_def bob_def max_rowid_def)

theorem AddQuote_error_after_insert_witness:
  "\<exists>q'. AddQuote two_quotes 300 ''Carol'' ''Hey'' None [] (Some (ErrDriver ''no id'')) =
           Return (q', 0, Some (ErrDriver ''no id''))
        \<and> table_of q' = Some [alice, bob, \<lparr>rid = 3, rdate = 300, rauthor = ''Carol'', rquote = ''Hey''\<rparr>]
        \<and> NQuotes q' = 3"
  using AddQuote_error_after_insert [OF two_quotes_table sqlAdd_two_quotes,
      of 300 "''Carol''" "''Hey''" "ErrDriver ''no id''"]
  by (simp add: NQuotes_def two_quotes_def)

text \<open>
  Claim C2 says that \<^verbatim>\<open>AddQuote\<close> fails when the author or the text is the empty
  string. It does not: a Go string is bound as a text value, never as NULL, so NOT NULL
  admits the empty string. On a new store the call with both strings empty returns id 1
  and a nil error, and the row is in the table.
\<close>

theorem AddQuote_empty_rejected_counterexample:
  "AddQuote new_store 100 [] [] None [] None =
     Return (\<lparr>db = Some \<lparr>isClosed = False,
                quotes_table = Some [\<lparr>rid = 1, rdate = 100, rauthor = [], rquote = []\<rparr>]\<rparr>,
              nQuotes = 1\<rparr>, 1, None)"
  by (simp add: AddQuote_def new_store_def conn_table_def conn_def sqlAdd_def new_rowid_def
      result_value_def)

text \<open>
  Claim C2, amended. On an open store, a call of \<^verbatim>\<open>AddQuote\<close> whose author or text is
  the empty string is not rejected: when the driver reports no failure and the engine
  finds an id \<open>i\<close> for the row, the call returns \<open>i\<close> with a nil error, the row with the
  empty field is in the table, and the count is one greater.
\<close>

theorem AddQuote_empty_fields:
  assumes "table_of q = Some t"
    and "a = [] \<or> s = []"
    and "new_rowid t rnd = Some i"
  shows "\<exists>q'. AddQuote q now a s None rnd None = Return (q', i, None)
          \<and> table_of q' = Some (t @ [\<lparr>rid = i, rdate = now, rauthor = a, rquote = s\<rparr>])
          \<and> NQuotes q' = NQuotes q + 1"
proof -
  from assms(1) obtain h where h: "db q = Some h" "\<not> isClosed h" "quotes_table h = Some t"
    by (rule table_of_open)
  let ?t' = "t @ [\<lparr>rid = i, rdate = now, rauthor = a, rquote = s\<rparr>]"
  let ?q' = "q\<lparr>db := Some (h\<lparr>quotes_table := Some ?t'\<rparr>), nQuotes := nQuotes q + 1\<rparr>"
  have "AddQuote q now a s None rnd None = Return (?q', i, None)"
    using h assms(3) by (simp add: AddQuote_def conn_table_open sqlAdd_some result_value_def)
  moreover have "table_of ?q' = Some ?t'" using h by (simp add: table_of_def)
  moreover have "NQuotes ?q' = NQuotes q + 1" by (simp add: NQuotes_def)
  ultimately show ?thesis by blast
qed

lemma new_rowid_two_quotes: "new_rowid [alice, bob] [] = Some 3"
  by (simp add: new_rowid_def ids_def alice_def bob_def max_rowid_def)

theorem AddQuote_empty_fields_witness:
  "\<exists>q'. AddQuote two_quotes 300 ''Carol'' [] None [] None = Return (q', 3, None)
        \<and> table_of q' = Some [alice, bob, \<lparr>rid = 3, rdate = 300, rauthor = ''Carol'', rquote = []\<rparr>]
        \<and> NQuotes q' = 3"
  using AddQuote_empty_fields [OF two_quotes_table _ new_rowid_two_quotes, of "''Carol''" "[]" 300]
  by (simp add: NQuotes_def two_quotes_def)

subsection \<open>DelQuote\<close>

lemma sqlDel_count:
  "primary_key t \<Longrightarrow> snd (sqlDel t i) = (if i \<in> set (ids t) then 1 else 0)"
  by (simp add: sqlDel_def rows_of_id_count)

lemma sqlDel_absent: "i \<notin> set (ids t) \<Longrightarrow> sqlDel t i = (t, 0)"
  by (simp add: sqlDel_def no_row_of_id keep_rows_of_other_id)

lemma sqlGetId_deleted: "sqlGetId (fst (sqlDel t i)) i = []"
  by (simp add: sqlGetId_def sqlDel_def)

lemma same_table: "db q = Some h \<Longrightarrow> quotes_table h = Some t \<Longrightarrow>
  q\<lparr>db := Some (h\<lparr>quotes_table := Some t\<rparr>)\<rparr> = q"
  by simp

lemma DelQuote_open:
  assumes "db q = Some h" "\<not> isClosed h" "quotes_table h = Some t"
  shows "DelQuote q i fe fr =
    (case fe of Some e \<Rightarrow> Return (q, False, Some e)
     | None \<Rightarrow>
        (case fr of
           Some e \<Rightarrow> Return (q\<lparr>db := Some (h\<lparr>quotes_table := Some (fst (sqlDel t i))\<rparr>)\<rparr>, False, Some e)
         | None \<Rightarrow>
            (if snd (sqlDel t i) = 1
             then Return (q\<lparr>db := Some (h\<lparr>quotes_table := Some (fst (sqlDel t i))\<rparr>),
                           nQuotes := nQuotes q - 1\<rparr>, True, None)
             else Return (q\<lparr>db := Some (h\<lparr>quotes_table := Some (fst (sqlDel t i))\<rparr>)\<rparr>, False, None))))"
  using assms
  by (simp add: DelQuote_def conn_table_open result_value_def Let_def split: option.splits)

lemma GetQuote_open:
  assumes "db q = Some h" "\<not> isClosed h" "quotes_table h = Some t"
  shows "GetQuote q i None =
     (case sqlGetId t i of [] \<Rightarrow> Return ([], Some ErrNoRows) | s # _ \<Rightarrow> Return (s, None))"
  using assms by (simp add: GetQuote_def conn_table_open scan_first_def split: list.splits)

text \<open>
  Claim C4. On an open store with distinct ids, \<^verbatim>\<open>DelQuote(i)\<close> always returns, and
  \<^item> when the driver reports no failure it returns a nil error and \<open>true\<close> exactly when a
    row with id \<open>i\<close> existed;
  \<^item> whenever it returns \<open>true\<close> (whatever the driver did), a row with id \<open>i\<close> existed,
    the count is exactly one less, and a following \<^verbatim>\<open>GetQuote(i)\<close> fails with
    \<^verbatim>\<open>sql.ErrNoRows\<close>;
  \<^item> when no row has id \<open>i\<close> it returns \<open>false\<close> and the count is unchanged.
\<close>

theorem DelQuote_result:
  assumes "table_of q = Some t" and "primary_key t"
  shows "\<forall>fe fr. \<exists>q' b err. DelQuote q i fe fr = Return (q', b, err)
          \<and> (fe = None \<and> fr = None \<longrightarrow> err = None \<and> (b \<longleftrightarrow> i \<in> set (ids t)))
          \<and> (b \<longrightarrow> i \<in> set (ids t) \<and> NQuotes q' = NQuotes q - 1
                    \<and> GetQuote q' i None = Return ([], Some ErrNoRows))
          \<and> (i \<notin> set (ids t) \<longrightarrow> \<not> b \<and> NQuotes q' = NQuotes q)"
proof (intro allI)
  fix fe fr
  from assms(1) obtain h where h: "db q = Some h" "\<not> isClosed h" "quotes_table h = Some t"
    by (rule table_of_open)
  note del = DelQuote_open [OF h, of i fe fr]
  let ?h' = "h\<lparr>quotes_table := Some (fst (sqlDel t i))\<rparr>"
  have get: "GetQuote (q\<lparr>db := Some ?h', nQuotes := nQuotes q - 1\<rparr>) i None
      = Return ([], Some ErrNoRows)"
    using h(2) by (simp add: GetQuote_open [of _ ?h' "fst (sqlDel t i)"] sqlGetId_deleted)
  show "\<exists>q' b err. DelQuote q i fe fr = Return (q', b, err)
          \<and> (fe = None \<and> fr = None \<longrightarrow> err = None \<and> (b \<longleftrightarrow> i \<in> set (ids t)))
          \<and> (b \<longrightarrow> i \<in> set (ids t) \<and> NQuotes q' = NQuotes q - 1
                    \<and> GetQuote q' i None = Return ([], Some ErrNoRows))
          \<and> (i \<notin> set (ids t) \<longrightarrow> \<not> b \<and> NQuotes q' = NQuotes q)"
  proof (cases fe)
    case (Some e)
    with del show ?thesis by (auto simp: NQuotes_def)
  next
    case None
    note fe = this
    show ?thesis
    proof (cases fr)
      case (Some e)
      with del fe show ?thesis by (auto simp: NQuotes_def)
    next
      case None
      show ?thesis
      proof (cases "i \<in> set (ids t)")
        case True
        with del fe None get show ?thesis
          by (auto simp: sqlDel_count [OF assms(2)] NQuotes_def)
      next
        case False
        with del fe None show ?thesis
          by (auto simp: sqlDel_count [OF assms(2)] NQuotes_def)
      qed
    qed
  qed
qed

lemma two_quotes_key: "primary_key [alice, bob]"
  by (simp add: primary_key_def ids_def alice_def bob_def)

theorem DelQuote_result_witness:
  "DelQuote two_quotes 1 None None =
     Return (\<lparr>db = Some \<lparr>isClosed = False, quotes_table = Some [bob]\<rparr>, nQuotes = 1\<rparr>, True, None)
   \<and> GetQuote \<lparr>db = Some \<lparr>isClosed = False, quotes_table = Some [bob]\<rparr>, nQuotes = 1\<rparr> 1 None
       = Return ([], Some ErrNoRows)
   \<and> DelQuote two_quotes 3 None None = Return (two_quotes, False, None)"
proof -
  have a: "DelQuote two_quotes 1 None None =
     Return (\<lparr>db = Some \<lparr>isClosed = False, quotes_table = Some [bob]\<rparr>, nQuotes = 1\<rparr>, True, None)"
    by (simp add: DelQuote_def two_quotes_def conn_table_def conn_def sqlDel_def result_value_def
        alice_def bob_def)
  have b: "DelQuote two_quotes 3 None None = Return (two_quotes, False, None)"
    by (simp add: DelQuote_def two_quotes_def conn_table_def conn_def sqlDel_def result_value_def
        alice_def bob_def)
  from DelQuote_result [OF two_quotes_table two_quotes_key, of 1, THEN spec, THEN spec, of None None]
  have "GetQuote \<lparr>db = Some \<lparr>isClosed = False, quotes_table = Some [bob]\<rparr>, nQuotes = 1\<rparr> 1 None
       = Return ([], Some ErrNoRows)"
    by (auto simp: a)
  with a b show ?thesis by simp
qed

subsection \<open>EditQuote\<close>

lemma sqlEdit_some:
  "sqlEdit t (Some s) i =
     Inr (map (\<lambda>r. if rid r = i then r\<lparr>rquote := s\<rparr> else r) t,
          int (length (filter (\<lambda>r. rid r = i) t)))"
  by (simp add: sqlEdit_def)

lemma edit_absent:
  "i \<notin> set (ids t) \<Longrightarrow> map (\<lambda>r. if rid r = i then r\<lparr>rquote := s\<rparr> else r) t = t"
  by (induction t) (auto simp: ids_def)

lemma sqlGetId_edited:
  "primary_key t \<Longrightarrow> i \<in> set (ids t) \<Longrightarrow>
   sqlGetId (map (\<lambda>r. if rid r = i then r\<lparr>rquote := s\<rparr> else r) t) i = [s]"
proof (induction t)
  case Nil
  then show ?case by (simp add: ids_def)
next
  case (Cons r t)
  show ?case
  proof (cases "rid r = i")
    case True
    with Cons.prems have "i \<notin> set (ids t)" by (simp add: primary_key_def ids_def)
    then have "filter (\<lambda>r. rid r = i) (map (\<lambda>r. if rid r = i then r\<lparr>rquote := s\<rparr> else r) t) = []"
      by (simp add: edit_absent no_row_of_id)
    with True show ?thesis by (simp add: sqlGetId_def)
  next
    case False
    with Cons.prems have "primary_key t" "i \<in> set (ids t)"
      by (auto simp: primary_key_def ids_def)
    with Cons.IH False show ?thesis by (simp add: sqlGetId_def)
  qed
qed

lemma only_quote_edited_refl: "only_quote_edited i t t"
  by (simp add: only_quote_edited_def same_but_quote_def list_all2_same)

lemma only_quote_edited_map:
  "only_quote_edited i t (map (\<lambda>r. if rid r = i then r\<lparr>rquote := s\<rparr> else r) t)"
  by (simp add: only_quote_edited_def same_but_quote_def list_all2_map2 list_all2_same)

lemma EditQuote_open:
  assumes "db q = Some h" "\<not> isClosed h" "quotes_table h = Some t"
  shows "EditQuote q i s fe fr =
    (case fe of Some e \<Rightarrow> Return (q, False, Some e)
     | None \<Rightarrow>
        (case fr of
           Some e \<Rightarrow> Return (q\<lparr>db := Some (h\<lparr>quotes_table :=
              Some (map (\<lambda>r. if rid r = i then r\<lparr>rquote := s\<rparr> else r) t)\<rparr>)\<rparr>, False, Some e)
         | None \<Rightarrow> Return (q\<lparr>db := Some (h\<lparr>quotes_table :=
              Some (map (\<lambda>r. if rid r = i then r\<lparr>rquote := s\<rparr> else r) t)\<rparr>)\<rparr>,
              int (length (filter (\<lambda>r. rid r = i) t)) = 1, None)))"
  using assms
  by (simp add: EditQuote_def conn_table_open sqlEdit_some result_value_def Let_def
      split: option.splits)

text \<open>
  Claim C5. On an open store with distinct ids:
  \<^item> when a row with id \<open>i\<close> exists and the driver reports no failure,
    \<^verbatim>\<open>EditQuote(i, s)\<close> returns \<open>true\<close> with a nil error and a following
    \<^verbatim>\<open>GetQuote(i)\<close> returns \<open>s\<close>;
  \<^item> when no row has id \<open>i\<close> it returns \<open>false\<close> and leaves the store as it was,
    whatever the driver did (with a nil error when the driver reports no failure);
  \<^item> in every case, whatever the driver did, it returns, the cached count is unchanged,
    and the table after the call has the same rows in the same order with the same id,
    date and author, rows with another id being unchanged as a whole.
\<close>

theorem EditQuote_frame:
  assumes "table_of q = Some t" and "primary_key t"
  shows "(i \<in> set (ids t) \<longrightarrow>
            (\<exists>q'. EditQuote q i s None None = Return (q', True, None)
                 \<and> GetQuote q' i None = Return (s, None)))
       \<and> (i \<notin> set (ids t) \<longrightarrow>
            EditQuote q i s None None = Return (q, False, None)
            \<and> (\<forall>fe fr. \<exists>err. EditQuote q i s fe fr = Return (q, False, err)))
       \<and> (\<forall>fe fr. \<exists>q' b err t'. EditQuote q i s fe fr = Return (q', b, err)
            \<and> table_of q' = Some t' \<and> only_quote_edited i t t'
            \<and> NQuotes q' = NQuotes q)"
proof -
  from assms(1) obtain h where h: "db q = Some h" "\<not> isClosed h" "quotes_table h = Some t"
    by (rule table_of_open)
  note edit = EditQuote_open [OF h, of i s]
  let ?t' = "map (\<lambda>r. if rid r = i then r\<lparr>rquote := s\<rparr> else r) t"
  let ?q' = "q\<lparr>db := Some (h\<lparr>quotes_table := Some ?t'\<rparr>)\<rparr>"
  have present: "\<exists>q'. EditQuote q i s None None = Return (q', True, None)
                 \<and> GetQuote q' i None = Return (s, None)" if "i \<in> set (ids t)"
  proof -
    have "EditQuote q i s None None = Return (?q', True, None)"
      using that by (simp add: edit rows_of_id_count [OF assms(2)])
    moreover have "GetQuote ?q' i None = Return (s, None)"
      using h(2) that
      by (simp add: GetQuote_open [of _ "h\<lparr>quotes_table := Some ?t'\<rparr>" ?t']
          sqlGetId_edited [OF assms(2)])
    ultimately show ?thesis by blast
  qed
  have absent: "EditQuote q i s None None = Return (q, False, None)
            \<and> (\<forall>fe fr. \<exists>err. EditQuote q i s fe fr = Return (q, False, err))"
    if "i \<notin> set (ids t)"
  proof -
    have same: "?q' = q" using h that by (simp add: edit_absent)
    have "EditQuote q i s fe fr = Return (q, False, case fe of Some e \<Rightarrow> Some e | None \<Rightarrow> fr)"
      for fe fr
      using that same by (simp add: edit no_row_of_id split: option.splits)
    then show ?thesis by simp
  qed
  have frame: "\<exists>q' b err t'. EditQuote q i s fe fr = Return (q', b, err)
            \<and> table_of q' = Some t' \<and> only_quote_edited i t t'
            \<and> NQuotes q' = NQuotes q" for fe fr
  proof (cases fe)
    case (Some e)
    then have "EditQuote q i s fe fr = Return (q, False, Some e)" by (simp add: edit)
    with assms(1) only_quote_edited_refl [of i t] show ?thesis by blast
  next
    case None
    then have "\<exists>b err. EditQuote q i s fe fr = Return (?q', b, err)"
      by (cases fr) (auto simp: edit)
    then obtain b err where "EditQuote q i s fe fr = Return (?q', b, err)" by blast
    moreover have "table_of ?q' = Some ?t'" using h by (simp add: table_of_def)
    moreover have "NQuotes ?q' = NQuotes q" by (simp add: NQuotes_def)
    ultimately show ?thesis using only_quote_edited_map [of i t s] by blast
  qed
  from present absent frame show ?thesis by blast
qed

theorem EditQuote_frame_witness:
  "(\<exists>q'. EditQuote two_quotes 2 ''Yo!'' None None = Return (q', True, None)
         \<and> GetQuote q' 2 None = Return (''Yo!'', None))
   \<and> EditQuote two_quotes 3 ''Yo!'' None None = Return (two_quotes, False, None)"
proof -
  have "2 \<in> set (ids [alice, bob])" "3 \<notin> set (ids [alice, bob])"
    by (simp_all add: ids_def alice_def bob_def)
  with EditQuote_frame [OF two_quotes_table two_quotes_key, of 2 "''Yo!''"]
    EditQuote_frame [OF two_quotes_table two_quotes_key, of 3 "''Yo!''"]
  show ?thesis by blast
qed

subsection \<open>Ids that are not in the store\<close>

lemma GetDetails_open:
  assumes "db q = Some h" "\<not> isClosed h" "quotes_table h = Some t"
  shows "GetDetails q i None =
     (case sqlGetDetail t i of [] \<Rightarrow> Return (0, [], Some ErrNoRows)
      | (d, a) # _ \<Rightarrow> Return (d, a, None))"
  using assms by (simp add: GetDetails_def conn_table_open scan_first_def split: list.splits)

text \<open>
  Claim C8. On an open store, for an id \<open>i\<close> that no row has, and when the driver reports
  no failure: \<^verbatim>\<open>GetQuote(i)\<close> and \<^verbatim>\<open>GetDetails(i)\<close> each return the error
  \<^verbatim>\<open>sql.ErrNoRows\<close> (beside the zero values), whereas \<^verbatim>\<open>EditQuote\<close> and \<^verbatim>\<open>DelQuote\<close>
  return \<open>false\<close> with a nil error, and leave the store as it was.
\<close>

theorem absent_id_results:
  assumes "table_of q = Some t" and "i \<notin> set (ids t)"
  shows "GetQuote q i None = Return ([], Some ErrNoRows)
       \<and> GetDetails q i None = Return (0, [], Some ErrNoRows)
       \<and> EditQuote q i s None None = Return (q, False, None)
       \<and> DelQuote q i None None = Return (q, False, None)"
proof -
  from assms(1) obtain h where h: "db q = Some h" "\<not> isClosed h" "quotes_table h = Some t"
    by (rule table_of_open)
  have "GetQuote q i None = Return ([], Some ErrNoRows)"
    using assms(2) by (simp add: GetQuote_open [OF h] sqlGetId_def no_row_of_id)
  moreover have "GetDetails q i None = Return (0, [], Some ErrNoRows)"
    using assms(2) by (simp add: GetDetails_open [OF h] sqlGetDetail_def no_row_of_id)
  moreover have "EditQuote q i s None None = Return (q, False, None)"
    using assms(2) h by (simp add: EditQuote_open [OF h] edit_absent no_row_of_id)
  moreover have "DelQuote q i None None = Return (q, False, None)"
    using assms(2) h by (simp add: DelQuote_open [OF h] sqlDel_absent)
  ultimately show ?thesis by simp
qed

theorem absent_id_results_witness:
  "GetQuote two_quotes 7 None = Return ([], Some ErrNoRows)
   \<and> GetDetails two_quotes 7 None = Return (0, [], Some ErrNoRows)
   \<and> EditQuote two_quotes 7 ''x'' None None = Return (two_quotes, False, None)
   \<and> DelQuote two_quotes 7 None None = Return (two_quotes, False, None)"
proof -
  have "7 \<notin> set (ids [alice, bob])" by (simp add: ids_def alice_def bob_def)
  from absent_id_results [OF two_quotes_table this] show ?thesis .
qed

subsection \<open>GetAll and RandomQuote\<close>

lemma scan_rows_no_failure: "scan_rows rs k None quotes = Inr (quotes @ map to_Quote rs)"
  by (induction rs arbitrary: k quotes) simp_all

lemma GetAll_open:
  assumes "db q = Some h" "\<not> isClosed h" "quotes_table h = Some t"
  shows "GetAll q None None None = Return (Some (map to_Quote (sqlGetAll t)), None)"
  using assms by (simp add: GetAll_def conn_table_open scan_rows_no_failure)

lemma ID_to_Quote: "map ID (map to_Quote rs) = map rid rs"
  by (simp add: to_Quote_def)

lemma mset_sqlGetAll: "mset (sqlGetAll t) = mset t"
  by (simp add: sqlGetAll_def)

lemma sqlGetAll_descending:
  assumes "primary_key t"
  shows "sorted_wrt (>) (map rid (sqlGetAll t))"
proof -
  let ?l = "map rid (sort_key rid t)"
  have "sorted ?l" by (rule sorted_sort_key)
  moreover have "mset ?l = mset (ids t)" by (simp add: ids_def)
  then have "distinct ?l" using assms mset_eq_imp_distinct_iff primary_key_def by blast
  ultimately have "sorted_wrt (<) ?l" by (simp add: strict_sorted_iff)
  then have "sorted_wrt (\<lambda>x y. y < x) (rev ?l)" by (simp add: sorted_wrt_rev)
  then show ?thesis by (simp add: sqlGetAll_def rev_map)
qed

text \<open>
  Claim C6. On an open store with distinct ids whose cached count is the number of rows,
  and when the driver reports no failure, \<^verbatim>\<open>GetAll()\<close> returns a slice with a nil error;
  the slice holds, for each row of the table, one \<^verbatim>\<open>Quote\<close> with the id, the date, the
  author and the text of that row, and nothing else (an equality of multisets); its ids
  are strictly descending, its length is the count that \<^verbatim>\<open>NQuotes\<close> returns, and on an
  empty table it is the empty slice.
\<close>

theorem GetAll_descending:
  assumes "table_of q = Some t" and "consistent q"
  shows "\<exists>qs. GetAll q None None None = Return (Some qs, None)
          \<and> mset qs =
              mset (map (\<lambda>r. \<lparr>ID = rid r, Date = rdate r, Author = rauthor r, Quote = rquote r\<rparr>) t)
          \<and> sorted_wrt (>) (map ID qs)
          \<and> int (length qs) = NQuotes q
          \<and> (t = [] \<longrightarrow> qs = [])"
proof -
  from assms(1) obtain h where h: "db q = Some h" "\<not> isClosed h" "quotes_table h = Some t"
    by (rule table_of_open)
  from assms have key: "primary_key t" and count: "nQuotes q = sqlGetCount t"
    by (simp_all add: consistent_def)
  let ?qs = "map to_Quote (sqlGetAll t)"
  have fields: "to_Quote = (\<lambda>r. \<lparr>ID = rid r, Date = rdate r, Author = rauthor r, Quote = rquote r\<rparr>)"
    by (rule ext) (simp add: to_Quote_def)
  have "GetAll q None None None = Return (Some ?qs, None)" by (rule GetAll_open [OF h])
  moreover have "mset ?qs = mset (map to_Quote t)" by (simp add: mset_sqlGetAll)
  then have "mset ?qs =
      mset (map (\<lambda>r. \<lparr>ID = rid r, Date = rdate r, Author = rauthor r, Quote = rquote r\<rparr>) t)"
    by (simp only: fields)
  moreover have "sorted_wrt (>) (map ID ?qs)"
    using sqlGetAll_descending [OF key] by (simp only: ID_to_Quote)
  moreover have "int (length ?qs) = NQuotes q"
    by (simp add: NQuotes_def count sqlGetCount_def sqlGetAll_def)
  moreover have "t = [] \<longrightarrow> ?qs = []" by (simp add: sqlGetAll_def)
  ultimately show ?thesis by blast
qed

lemma two_quotes_consistent: "consistent two_quotes"
  by (simp add: consistent_def table_of_def two_quotes_def primary_key_def ids_def
      sqlGetCount_def alice_def bob_def)

theorem GetAll_descending_witness:
  "\<exists>qs. GetAll two_quotes None None None = Return (Some qs, None)
        \<and> mset qs = mset [\<lparr>ID = 1, Date = 100, Author = ''Alice'', Quote = ''Hi''\<rparr>,
                           \<lparr>ID = 2, Date = 200, Author = ''Bob'', Quote = ''Yo''\<rparr>]
        \<and> sorted_wrt (>) (map ID qs)
        \<and> int (length qs) = NQuotes two_quotes"
proof -
  have "map (\<lambda>r. \<lparr>ID = rid r, Date = rdate r, Author = rauthor r, Quote = rquote r\<rparr>) [alice, bob]
      = [\<lparr>ID = 1, Date = 100, Author = ''Alice'', Quote = ''Hi''\<rparr>,
         \<lparr>ID = 2, Date = 200, Author = ''Bob'', Quote = ''Yo''\<rparr>]"
    by (simp add: alice_def bob_def)
  with GetAll_descending [OF two_quotes_table two_quotes_consistent] show ?thesis
    by (auto simp only:)
qed

text \<open>
  Claim C7. On an open store, when the driver reports no failure: \<^verbatim>\<open>RandomQuote()\<close>
  on an empty table returns the error \<^verbatim>\<open>sql.ErrNoRows\<close>; on a table with rows it
  returns, whatever the engine's random choice, an id and a text with a nil error, and
  \<^verbatim>\<open>GetAll()\<close> on the same store returns a quote with that id and that text.
\<close>

theorem RandomQuote_result:
  assumes "table_of q = Some t"
  shows "(t = [] \<longrightarrow> RandomQuote q pick None = Return (0, [], Some ErrNoRows))
       \<and> (t \<noteq> [] \<longrightarrow>
            (\<exists>i s qs. RandomQuote q pick None = Return (i, s, None)
               \<and> GetAll q None None None = Return (Some qs, None)
               \<and> (\<exists>x \<in> set qs. ID x = i \<and> Quote x = s)))"
proof -
  from assms(1) obtain h where h: "db q = Some h" "\<not> isClosed h" "quotes_table h = Some t"
    by (rule table_of_open)
  have empty: "RandomQuote q pick None = Return (0, [], Some ErrNoRows)" if "t = []"
    using that h by (simp add: RandomQuote_def conn_table_open sqlGet_def scan_first_def)
  have some: "\<exists>i s qs. RandomQuote q pick None = Return (i, s, None)
               \<and> GetAll q None None None = Return (Some qs, None)
               \<and> (\<exists>x \<in> set qs. ID x = i \<and> Quote x = s)" if "t \<noteq> []"
  proof -
    let ?r = "t ! (pick mod length t)"
    from that have "pick mod length t < length t" by simp
    then have "?r \<in> set t" by (rule nth_mem)
    then have "?r \<in> set (sqlGetAll t)" by (simp add: sqlGetAll_def)
    then have "to_Quote ?r \<in> set (map to_Quote (sqlGetAll t))" by simp
    moreover have "ID (to_Quote ?r) = rid ?r" "Quote (to_Quote ?r) = rquote ?r"
      by (simp_all add: to_Quote_def)
    moreover have "RandomQuote q pick None = Return (rid ?r, rquote ?r, None)"
      using that h by (simp add: RandomQuote_def conn_table_open sqlGet_def scan_first_def)
    ultimately show ?thesis using GetAll_open [OF h] by blast
  qed
  from empty some show ?thesis by blast
qed

theorem RandomQuote_result_witness:
  "RandomQuote new_store 5 None = Return (0, [], Some ErrNoRows)
   \<and> (\<exists>i s qs. RandomQuote two_quotes 5 None = Return (i, s, None)
         \<and> GetAll two_quotes None None None = Return (Some qs, None)
         \<and> (\<exists>x \<in> set qs. ID x = i \<and> Quote x = s))"
  using RandomQuote_result [OF new_store_table, of 5] RandomQuote_result [OF two_quotes_table, of 5]
  by simp

subsection \<open>OpenDB\<close>

lemma createTable_new:
  "createTable \<lparr>db = Some \<lparr>isClosed = False, quotes_table = file\<rparr>, nQuotes = 0\<rparr> f_table f_index =
     (case f_table of
        Some e \<Rightarrow> Return (\<lparr>db = Some \<lparr>isClosed = False, quotes_table = file\<rparr>, nQuotes = 0\<rparr>, Some e)
      | None \<Rightarrow>
          Return (\<lparr>db = Some \<lparr>isClosed = False, quotes_table = sqlCreateTable file\<rparr>, nQuotes = 0\<rparr>,
                  f_index))"
  by (cases "file")
    (simp_all add: createTable_def conn_def sqlCreateTable_def sqlDateIndex_def Let_def
      split: option.splits)

lemma getCount_new:
  "getCount \<lparr>db = Some \<lparr>isClosed = False, quotes_table = sqlCreateTable file\<rparr>, nQuotes = 0\<rparr> f_count =
     (case f_count of
        Some e \<Rightarrow>
          Return (\<lparr>db = Some \<lparr>isClosed = False, quotes_table = sqlCreateTable file\<rparr>, nQuotes = 0\<rparr>,
                  Some e)
      | None \<Rightarrow>
          Return (\<lparr>db = Some \<lparr>isClosed = False, quotes_table = sqlCreateTable file\<rparr>,
                    nQuotes = (case file of None \<Rightarrow> 0 | Some t \<Rightarrow> int (length t))\<rparr>, None))"
  by (cases "file")
    (simp_all add: getCount_def conn_table_def conn_def sqlCreateTable_def scan_first_def
      sqlGetCount_def split: option.splits)

lemma OpenDB_cases:
  "OpenDB file f_open f_table f_index f_count f_close =
     (case f_open of Some e \<Rightarrow> Return (None, Some e, None)
      | None \<Rightarrow>
     (case f_table of
        Some e \<Rightarrow> Return (None, Some e, Some \<lparr>isClosed = True, quotes_table = file\<rparr>)
      | None \<Rightarrow>
     (case f_index of
        Some e \<Rightarrow> Return (None, Some e, Some \<lparr>isClosed = True, quotes_table = sqlCreateTable file\<rparr>)
      | None \<Rightarrow>
     (case f_count of
        Some e \<Rightarrow> Return (None, Some e, Some \<lparr>isClosed = True, quotes_table = sqlCreateTable file\<rparr>)
      | None \<Rightarrow>
          Return (Some \<lparr>db = Some \<lparr>isClosed = False, quotes_table = sqlCreateTable file\<rparr>,
                         nQuotes = (case file of None \<Rightarrow> 0 | Some t \<Rightarrow> int (length t))\<rparr>,
                  None, Some \<lparr>isClosed = False, quotes_table = sqlCreateTable file\<rparr>)))))"
  by (simp add: OpenDB_def sql_Open_def createTable_new getCount_new Close_def
      split: option.splits)

text \<open>
  Claim C9. When \<^verbatim>\<open>sql.Open\<close> fails, or one of the two schema statements fails, or the
  load of the count fails, \<^verbatim>\<open>OpenDB\<close> returns an error and no store (it is the error of
  the first of these steps that failed); when \<^verbatim>\<open>sql.Open\<close> failed there is no handle,
  and otherwise the handle that \<^verbatim>\<open>sql.Open\<close> made is closed when \<^verbatim>\<open>OpenDB\<close> returns,
  also when \<^verbatim>\<open>Close\<close> itself reports an error.
\<close>

theorem OpenDB_failure:
  assumes "f_open \<noteq> None \<or> f_table \<noteq> None \<or> f_index \<noteq> None \<or> f_count \<noteq> None"
  shows "\<exists>e handle. OpenDB file f_open f_table f_index f_count f_close = Return (None, Some e, handle)
          \<and> Some e = (if f_open \<noteq> None then f_open else if f_table \<noteq> None then f_table
                       else if f_index \<noteq> None then f_index else f_count)
          \<and> (case handle of None \<Rightarrow> f_open \<noteq> None | Some h \<Rightarrow> f_open = None \<and> isClosed h)"
  using assms by (auto simp: OpenDB_cases split: option.splits)

theorem OpenDB_failure_witness:
  "\<exists>handle. OpenDB (Some [alice, bob]) None None None (Some (ErrDriver ''disk I/O error'')) None
              = Return (None, Some (ErrDriver ''disk I/O error''), handle)
        \<and> (case handle of None \<Rightarrow> False | Some h \<Rightarrow> isClosed h)"
  using OpenDB_failure [of None None None "Some (ErrDriver ''disk I/O error'')" "Some [alice, bob]" None]
  by (auto split: option.splits)

text \<open>When nothing fails \<^verbatim>\<open>OpenDB\<close> returns an open store that is consistent, if the ids
  in the file are distinct.\<close>

lemma OpenDB_success:
  assumes "case file of None \<Rightarrow> True | Some t \<Rightarrow> primary_key t"
  shows "\<exists>q h. OpenDB file None None None None f_close = Return (Some q, None, Some h)
          \<and> db q = Some h \<and> \<not> isClosed h \<and> consistent q"
  using assms
  by (cases "file")
    (simp_all add: OpenDB_cases consistent_def table_of_def sqlCreateTable_def sqlGetCount_def
      primary_key_def ids_def)

lemma OpenDB_new_file: "OpenDB None None None None None None = Return (Some new_store, None, db new_store)"
  by (simp add: OpenDB_cases new_store_def sqlCreateTable_def)

subsection \<open>The cached count along a run\<close>

lemma consistent_open:
  assumes "consistent q"
  obtains h t where "db q = Some h" "\<not> isClosed h" "quotes_table h = Some t"
    "table_of q = Some t" "primary_key t" "nQuotes q = int (length t)"
proof -
  from assms obtain t where t: "table_of q = Some t" "primary_key t" "nQuotes q = int (length t)"
    by (auto simp: consistent_def sqlGetCount_def split: option.splits)
  from t(1) obtain h where "db q = Some h" "\<not> isClosed h" "quotes_table h = Some t"
    by (rule table_of_open)
  with t that show thesis by blast
qed

lemma consistent_table:
  "\<not> isClosed h \<Longrightarrow> primary_key t \<Longrightarrow> n = int (length t) \<Longrightarrow>
   consistent (q\<lparr>db := Some (h\<lparr>quotes_table := Some t\<rparr>), nQuotes := n\<rparr>)"
  by (simp add: consistent_def table_of_def sqlGetCount_def)

lemma reads_return:
  assumes "db q = Some h"
  shows "\<exists>r. RandomQuote q pick f = Return r" "\<exists>r. GetQuote q i f = Return r"
    "\<exists>r. GetDetails q i f = Return r" "\<exists>r. GetAll q f_query f_next f_scan = Return r"
  using assms
  by (auto simp: RandomQuote_def GetQuote_def GetDetails_def GetAll_def Let_def
      split: sum.splits option.splits prod.splits)

lemma AddQuote_consistent:
  assumes "consistent q"
  shows "\<exists>q' i err. AddQuote q now a s fe rnd fi = Return (q', i, err) \<and> consistent q'
          \<and> NQuotes q' - NQuotes q \<in> {0, 1}"
proof -
  from assms obtain h t where h: "db q = Some h" "\<not> isClosed h" "quotes_table h = Some t"
    and t: "primary_key t" "nQuotes q = int (length t)"
    by (rule consistent_open)
  show ?thesis
  proof (cases "fe = None \<and> new_rowid t rnd \<noteq> None")
    case False
    then have "\<exists>e. AddQuote q now a s fe rnd fi = Return (q, 0, Some e)"
      using h by (auto simp: AddQuote_def conn_table_open sqlAdd_some split: option.splits)
    with assms show ?thesis by auto
  next
    case True
    then obtain j where j: "new_rowid t rnd = Some j" by blast
    let ?t' = "t @ [\<lparr>rid = j, rdate = now, rauthor = a, rquote = s\<rparr>]"
    let ?q' = "q\<lparr>db := Some (h\<lparr>quotes_table := Some ?t'\<rparr>), nQuotes := nQuotes q + 1\<rparr>"
    have add: "sqlAdd t (Some now) (Some a) (Some s) rnd = Inr (?t', j)"
      by (simp add: sqlAdd_some j)
    have "\<exists>i err. AddQuote q now a s fe rnd fi = Return (?q', i, err)"
      using h True add by (cases fi) (simp_all add: AddQuote_def conn_table_open result_value_def)
    moreover have "consistent ?q'"
      using h(2) primary_key_sqlAdd [OF t(1) add] t(2) by (intro consistent_table) simp_all
    moreover have "NQuotes ?q' - NQuotes q \<in> {0, 1}" by (simp add: NQuotes_def)
    ultimately show ?thesis by blast
  qed
qed

lemma DelQuote_consistent:
  assumes "consistent q" and "\<not> lost_delete q (CallDel i fe fr)"
  shows "\<exists>q' b err. DelQuote q i fe fr = Return (q', b, err) \<and> consistent q'
          \<and> NQuotes q' - NQuotes q \<in> {0, - 1}"
proof -
  from assms(1) obtain h t where h: "db q = Some h" "\<not> isClosed h" "quotes_table h = Some t"
    and tab: "table_of q = Some t" and t: "primary_key t" "nQuotes q = int (length t)"
    by (rule consistent_open)
  note del = DelQuote_open [OF h]
  show ?thesis
  proof (cases fe)
    case (Some e)
    with assms(1) show ?thesis by (auto simp: del)
  next
    case None
    let ?t' = "fst (sqlDel t i)"
    show ?thesis
    proof (cases "i \<in> set (ids t)")
      case True
      with assms(2) None tab have fr: "fr = None" by simp
      let ?q' = "q\<lparr>db := Some (h\<lparr>quotes_table := Some ?t'\<rparr>), nQuotes := nQuotes q - 1\<rparr>"
      have "DelQuote q i fe fr = Return (?q', True, None)"
        using True by (simp add: del None fr sqlDel_count [OF t(1)])
      moreover have "consistent ?q'"
        using h(2) primary_key_sqlDel [OF t(1)] length_sqlDel [of t i] True t(2)
        by (intro consistent_table) (simp_all add: sqlDel_count [OF t(1)])
      moreover have "NQuotes ?q' - NQuotes q \<in> {0, - 1}" by (simp add: NQuotes_def)
      ultimately show ?thesis by blast
    next
      case False
      then have "\<exists>err. DelQuote q i fe fr = Return (q, False, err)"
        using h by (cases fr) (simp_all add: del None sqlDel_absent)
      with assms(1) show ?thesis by auto
    qed
  qed
qed

lemma EditQuote_consistent:
  assumes "consistent q"
  shows "\<exists>q' b err. EditQuote q i s fe fr = Return (q', b, err) \<and> consistent q'
          \<and> NQuotes q' - NQuotes q \<in> {0}"
proof -
  from assms(1) obtain h t where h: "db q = Some h" "\<not> isClosed h" "quotes_table h = Some t"
    and t: "primary_key t" "nQuotes q = int (length t)"
    by (rule consistent_open)
  note edit = EditQuote_open [OF h]
  let ?t' = "map (\<lambda>r. if rid r = i then r\<lparr>rquote := s\<rparr> else r) t"
  let ?q' = "q\<lparr>db := Some (h\<lparr>quotes_table := Some ?t'\<rparr>)\<rparr>"
  have key: "primary_key ?t'" using t(1) by (simp add: primary_key_def ids_edit)
  have "consistent (?q'\<lparr>nQuotes := nQuotes q\<rparr>)"
    using h(2) key t(2) by (simp add: consistent_def table_of_def sqlGetCount_def)
  then have c: "consistent ?q'" by simp
  show ?thesis
  proof (cases fe)
    case (Some e)
    with assms show ?thesis by (auto simp: edit)
  next
    case None
    then have "\<exists>b err. EditQuote q i s fe fr = Return (?q', b, err)"
      by (cases fr) (auto simp: edit)
    moreover have "NQuotes ?q' - NQuotes q \<in> {0}" by (simp add: NQuotes_def)
    ultimately show ?thesis using c by blast
  qed
qed

lemma in_step_open:
  "db q = Some h \<Longrightarrow> in_step (q, file) \<longleftrightarrow> consistent q \<and> file = table_of q"
  by (auto simp: in_step_def consistent_def split: option.splits)

lemma in_step_closed:
  "db q = None \<Longrightarrow>
   in_step (q, file) \<longleftrightarrow> (\<exists>t. file = Some t \<and> primary_key t \<and> nQuotes q = sqlGetCount t)"
  by (auto simp: in_step_def split: option.splits)

lemma consistent_file_after: "consistent q \<Longrightarrow> file_after q file = table_of q"
  by (auto simp: file_after_def consistent_def split: option.splits)

lemma consistent_db: "consistent q \<Longrightarrow> db q \<noteq> None"
  by (auto simp: consistent_def table_of_def split: option.splits)

lemma closed_store_panics:
  assumes "db q = None"
  shows "AddQuote q now a s fe rnd fi = Panic" "RandomQuote q pick f = Panic"
    "GetQuote q i f = Panic" "GetDetails q i f = Panic" "DelQuote q i fe fr = Panic"
    "EditQuote q i s fe fr = Panic" "GetAll q f_query f_next f_scan = Panic" "Close q f = Panic"
  using assms
  by (simp_all add: AddQuote_def RandomQuote_def GetQuote_def GetDetails_def DelQuote_def
      EditQuote_def GetAll_def Close_def)

text \<open>A call on an open store returns, and keeps the store open unless it is \<^verbatim>\<open>Close\<close>.\<close>

lemma step_open:
  assumes "in_step (q, file)" and "db q \<noteq> None"
  shows "\<exists>s'. step (q, file) c = Return s' \<and> (\<not> closes c \<longrightarrow> db (fst s') \<noteq> None)"
proof -
  from assms(2) obtain h where h: "db q = Some h" by blast
  with assms(1) have c: "consistent q" by (simp add: in_step_open)
  show ?thesis
  proof (cases c)
    case (CallAdd now a s fe rnd fi)
    with AddQuote_consistent [OF c, of now a s fe rnd fi] show ?thesis
      by (auto dest: consistent_db)
  next
    case (CallRandom pick f)
    with reads_return(1) [OF h, of pick f] h show ?thesis by auto
  next
    case (CallGet i f)
    with reads_return(2) [OF h, of i f] h show ?thesis by auto
  next
    case (CallDetails i f)
    with reads_return(3) [OF h, of i f] h show ?thesis by auto
  next
    case (CallDel i fe fr)
    from h have "\<exists>r. DelQuote q i fe fr = Return r \<and> db (fst r) \<noteq> None"
      by (auto simp: DelQuote_def Let_def split: sum.splits)
    with CallDel show ?thesis by auto
  next
    case (CallEdit i s fe fr)
    with EditQuote_consistent [OF c, of i s fe fr] show ?thesis
      by (auto dest: consistent_db)
  next
    case (CallGetAll fq fn fs)
    with reads_return(4) [OF h, of fq fn fs] h show ?thesis by auto
  next
    case CallNQuotes
    with h show ?thesis by simp
  next
    case (CallClose f)
    with h show ?thesis by (simp add: Close_def)
  qed
qed

text \<open>A call that returns and loses no delete keeps the count in step with the file.\<close>

lemma step_in_step:
  assumes "in_step (q, file)" and "\<not> lost_delete q c" and "step (q, file) c = Return s'"
  shows "in_step s' \<and> NQuotes (fst s') - NQuotes q \<in> count_change c"
proof (cases "db q")
  case None
  with assms(3) have "c = CallNQuotes \<and> s' = (q, file)"
    by (cases c) (simp_all add: closed_store_panics)
  with assms(1) show ?thesis by simp
next
  case (Some h)
  with assms(1) have c: "consistent q" and fl: "file = table_of q" by (simp_all add: in_step_open)
  have same: "in_step (q, file) \<and> NQuotes q - NQuotes q \<in> {0}" using assms(1) by simp
  have moved: "in_step (q', file_after q' file)" if "consistent q'" for q'
  proof -
    from that obtain h' where "db q' = Some h'" using consistent_db by blast
    with that show ?thesis by (simp add: in_step_open consistent_file_after)
  qed
  show ?thesis
  proof (cases c)
    case (CallAdd now a s fe rnd fi)
    with AddQuote_consistent [OF c, of now a s fe rnd fi] assms(3) moved show ?thesis by auto
  next
    case (CallRandom pick f)
    with assms(3) same show ?thesis by (auto split: outcome.splits)
  next
    case (CallGet i f)
    with assms(3) same show ?thesis by (auto split: outcome.splits)
  next
    case (CallDetails i f)
    with assms(3) same show ?thesis by (auto split: outcome.splits)
  next
    case (CallDel i fe fr)
    with assms(2) have "\<not> lost_delete q (CallDel i fe fr)" by simp
    from DelQuote_consistent [OF c this] CallDel assms(3) moved show ?thesis by auto
  next
    case (CallEdit i s fe fr)
    with EditQuote_consistent [OF c, of i s fe fr] assms(3) moved show ?thesis by auto
  next
    case (CallGetAll fq fn fs)
    with assms(3) same show ?thesis by (auto split: outcome.splits)
  next
    case CallNQuotes
    with assms(3) same show ?thesis by auto
  next
    case (CallClose f)
    from c obtain t where t: "table_of q = Some t" "primary_key t" "nQuotes q = sqlGetCount t"
      by (auto simp: consistent_def split: option.splits)
    from t(1) Some have "quotes_table h = Some t"
      by (auto simp: table_of_def split: if_splits)
    with CallClose Some assms(3) have "s' = (q\<lparr>db := None\<rparr>, Some t)"
      by (auto simp: Close_def)
    with t CallClose show ?thesis by (simp add: in_step_def NQuotes_def)
  qed
qed

lemma run_snoc:
  "run s (cs @ [c]) = (case run s cs of Panic \<Rightarrow> Panic | Return s' \<Rightarrow> step s' c)"
  by (induction cs arbitrary: s) (auto split: outcome.splits)

lemma run_take_Suc:
  "k < length cs \<Longrightarrow>
   run s (take (Suc k) cs) = (case run s (take k cs) of Panic \<Rightarrow> Panic | Return s' \<Rightarrow> step s' (cs ! k))"
  by (simp add: take_Suc_conv_app_nth run_snoc)

lemma run_in_step:
  assumes "in_step s0"
    and "\<forall>j < length cs. \<forall>s. run s0 (take j cs) = Return s \<longrightarrow> \<not> lost_delete (fst s) (cs ! j)"
  shows "k \<le> length cs \<Longrightarrow> run s0 (take k cs) = Return s \<Longrightarrow> in_step s"
proof (induction k arbitrary: s)
  case 0
  with assms(1) show ?case by simp
next
  case (Suc k)
  from Suc.prems(1) have k: "k < length cs" by simp
  from Suc.prems(2) k obtain s1 where s1: "run s0 (take k cs) = Return s1"
    and st: "step s1 (cs ! k) = Return s"
    by (auto simp: run_take_Suc split: outcome.splits)
  from Suc.IH [OF _ s1] k have "in_step s1" by simp
  moreover from assms(2) k s1 have "\<not> lost_delete (fst s1) (cs ! k)" by blast
  ultimately show ?case using st step_in_step [of "fst s1" "snd s1" "cs ! k" s] by simp
qed

lemma run_open:
  assumes "in_step s0" and "db (fst s0) \<noteq> None"
    and "\<forall>j < length cs. \<forall>s. run s0 (take j cs) = Return s \<longrightarrow> \<not> lost_delete (fst s) (cs ! j)"
  shows "k \<le> length cs \<Longrightarrow> \<forall>c \<in> set (take k cs). \<not> closes c \<Longrightarrow>
         \<exists>s. run s0 (take k cs) = Return s \<and> db (fst s) \<noteq> None"
proof (induction k)
  case 0
  with assms(2) show ?case by simp
next
  case (Suc k)
  from Suc.prems(1) have k: "k < length cs" by simp
  then have tk: "take (Suc k) cs = take k cs @ [cs ! k]" by (rule take_Suc_conv_app_nth)
  with Suc.prems(2) have nc: "\<forall>c \<in> set (take k cs). \<not> closes c" and ck: "\<not> closes (cs ! k)"
    by simp_all
  from Suc.IH [OF _ nc] k obtain s1 where s1: "run s0 (take k cs) = Return s1"
    "db (fst s1) \<noteq> None" by auto
  from run_in_step [OF assms(1,3) _ s1(1)] k have "in_step s1" by simp
  with step_open [of "fst s1" "snd s1" "cs ! k"] s1(2) ck
  obtain s2 where "step s1 (cs ! k) = Return s2" "db (fst s2) \<noteq> None" by auto
  with s1(1) k show ?case by (simp add: run_take_Suc)
qed

text \<open>With a \<^verbatim>\<open>RowsAffected\<close> that returns a nil error, as go-sqlite3's does, no call
  loses a delete.\<close>

lemma rows_affected_no_lost_delete: "\<not> lost_delete q (CallDel i f_exec None)"
  by simp

text \<open>
  Claim C1. Take a store that is open, has distinct ids and a cached count equal to the
  number of rows (as \<^verbatim>\<open>OpenDB\<close> returns it), and any sequence of calls of
  \<^verbatim>\<open>AddQuote\<close>, \<^verbatim>\<open>RandomQuote\<close>, \<^verbatim>\<open>GetQuote\<close>, \<^verbatim>\<open>GetDetails\<close>, \<^verbatim>\<open>DelQuote\<close>,
  \<^verbatim>\<open>EditQuote\<close>, \<^verbatim>\<open>GetAll\<close>, \<^verbatim>\<open>NQuotes\<close> and \<^verbatim>\<open>Close\<close>, in which statements and
  queries fail or not as the environment decides. The one thing the environment does not
  do is to let \<^verbatim>\<open>RowsAffected\<close> fail after a \<^verbatim>\<open>DELETE\<close> that deleted a row, which the
  driver of the package never does. Then
  \<^item> every call up to the first \<^verbatim>\<open>Close\<close> returns;
  \<^item> before and after every call that returns (a call of a closed store panics), the
    count that \<^verbatim>\<open>NQuotes\<close> returns is the number of rows of the table in the file; so the
    count changes exactly as the number of rows does;
  \<^item> the count changes by 0 or 1 in \<^verbatim>\<open>AddQuote\<close>, by 0 or -1 in \<^verbatim>\<open>DelQuote\<close>, and not
    at all in any other call.
\<close>

theorem count_invariant:
  assumes "consistent q"
    and "\<forall>j < length cs. \<forall>s. run (q, table_of q) (take j cs) = Return s
           \<longrightarrow> \<not> lost_delete (fst s) (cs ! j)"
  shows "\<forall>k < length cs.
           ((\<forall>c \<in> set (take k cs). \<not> closes c) \<longrightarrow>
              (\<exists>s1 s2. run (q, table_of q) (take k cs) = Return s1 \<and> step s1 (cs ! k) = Return s2))
           \<and> (\<forall>s1 s2. run (q, table_of q) (take k cs) = Return s1 \<and> step s1 (cs ! k) = Return s2
                \<longrightarrow> (\<exists>t1 t2. snd s1 = Some t1 \<and> NQuotes (fst s1) = sqlGetCount t1
                             \<and> snd s2 = Some t2 \<and> NQuotes (fst s2) = sqlGetCount t2)
                    \<and> NQuotes (fst s2) - NQuotes (fst s1) \<in> count_change (cs ! k))"
proof (intro allI impI conjI)
  from assms(1) obtain h where h: "db q = Some h" using consistent_db by blast
  with assms(1) have start: "in_step (q, table_of q)" by (simp add: in_step_open)
  from h have opened: "db (fst (q, table_of q)) \<noteq> None" by simp
  {
    fix k
    assume k: "k < length cs" and nc: "\<forall>c \<in> set (take k cs). \<not> closes c"
    from run_open [OF start opened assms(2) _ nc] k
    obtain s1 where s1: "run (q, table_of q) (take k cs) = Return s1" "db (fst s1) \<noteq> None"
      by auto
    from run_in_step [OF start assms(2) _ s1(1)] k have "in_step s1" by simp
    with step_open [of "fst s1" "snd s1" "cs ! k"] s1(2)
    obtain s2 where "step s1 (cs ! k) = Return s2" by auto
    with s1(1)
    show "\<exists>s1 s2. run (q, table_of q) (take k cs) = Return s1 \<and> step s1 (cs ! k) = Return s2"
      by blast
  }
  {
    fix k s1 s2
    assume k: "k < length cs"
      and r: "run (q, table_of q) (take k cs) = Return s1 \<and> step s1 (cs ! k) = Return s2"
    from run_in_step [OF start assms(2) _ conjunct1 [OF r]] k have i1: "in_step s1" by simp
    from assms(2) k r have "\<not> lost_delete (fst s1) (cs ! k)" by blast
    from step_in_step [of "fst s1" "snd s1" "cs ! k" s2] i1 this r
    have i2: "in_step s2" and d: "NQuotes (fst s2) - NQuotes (fst s1) \<in> count_change (cs ! k)"
      by simp_all
    from i1 i2
    show "\<exists>t1 t2. snd s1 = Some t1 \<and> NQuotes (fst s1) = sqlGetCount t1
                 \<and> snd s2 = Some t2 \<and> NQuotes (fst s2) = sqlGetCount t2"
      by (auto simp: in_step_def NQuotes_def split: option.splits)
    from d show "NQuotes (fst s2) - NQuotes (fst s1) \<in> count_change (cs ! k)" .
  }
qed

lemma new_store_consistent: "consistent new_store"
  by (simp add: consistent_def table_of_def new_store_def primary_key_def ids_def sqlGetCount_def)

theorem count_invariant_witness:
  "\<exists>s1 s2 t1 t2.
     run (new_store, table_of new_store)
       [CallAdd 100 ''Alice'' ''Hi'' None [] None, CallDel 7 (Some (ErrDriver ''disk I/O error'')) None]
       = Return s1
     \<and> step s1 (CallDel 1 None None) = Return s2
     \<and> snd s1 = Some t1 \<and> NQuotes (fst s1) = sqlGetCount t1
     \<and> snd s2 = Some t2 \<and> NQuotes (fst s2) = sqlGetCount t2
     \<and> NQuotes (fst s2) - NQuotes (fst s1) \<in> {0, - 1}"
proof -
  let ?cs = "[CallAdd 100 ''Alice'' ''Hi'' None [] None,
              CallDel 7 (Some (ErrDriver ''disk I/O error'')) None,
              CallDel 1 None None, CallClose None, CallNQuotes]"
  have "\<forall>c \<in> set ?cs. \<forall>q. \<not> lost_delete q c" by simp
  then have "\<forall>j < length ?cs. \<forall>q. \<not> lost_delete q (?cs ! j)"
    using nth_mem by blast
  then have "\<forall>j < length ?cs. \<forall>s. run (new_store, table_of new_store) (take j ?cs) = Return s
           \<longrightarrow> \<not> lost_delete (fst s) (?cs ! j)"
    by blast
  note hyp = this
  have k: "2 < length ?cs" by simp
  have nc: "\<forall>c \<in> set (take 2 ?cs). \<not> closes c" by simp
  note inv = count_invariant [OF new_store_consistent hyp, THEN spec, THEN mp, OF k]
  from inv [THEN conjunct1, THEN mp, OF nc]
  have a: "\<exists>s1 s2. run (new_store, table_of new_store) (take 2 ?cs) = Return s1
              \<and> step s1 (?cs ! 2) = Return s2" .
  from inv [THEN conjunct2]
  have b: "\<forall>s1 s2. run (new_store, table_of new_store) (take 2 ?cs) = Return s1
              \<and> step s1 (?cs ! 2) = Return s2
            \<longrightarrow> (\<exists>t1 t2. snd s1 = Some t1 \<and> NQuotes (fst s1) = sqlGetCount t1
                     \<and> snd s2 = Some t2 \<and> NQuotes (fst s2) = sqlGetCount t2)
                \<and> NQuotes (fst s2) - NQuotes (fst s1) \<in> count_change (?cs ! 2)" .
  have t: "take 2 ?cs = [CallAdd 100 ''Alice'' ''Hi'' None [] None,
              CallDel 7 (Some (ErrDriver ''disk I/O error'')) None]"
    and n: "?cs ! 2 = CallDel 1 None None"
    and c: "count_change (CallDel 1 None None) = {0, - 1}"
    by simp_all
  from a b show ?thesis unfolding t n c by blast
qed

end
